theory Spec2Isabelle
  imports Main "HOL-Library.Word" "HOL-Library.Multiset"
begin

section \<open>Data model\<close>

subsection \<open>Layers and render passes (renderer/render_pass.h)\<close>

text \<open>
  \<^verbatim>\<open>struct Layer { int64_t priority; size_t length; }\<close>.
  The priority is a 64-bit word read in two's complement; the only operations on
  priorities are comparisons. The length counts elements of a vector held in memory,
  so it is a natural number; the field is called \<open>length_l\<close> because \<open>length\<close>
  is the list function of HOL.
\<close>

record Layer =
  priority :: "64 word"
  length_l :: nat

text \<open>
  Shared pointers are modelled by the identity of the object they point to: a render
  target and a geometry are natural numbers, and a null geometry pointer is \<open>None\<close>.
\<close>

type_synonym RenderTarget = nat
type_synonym Geometry = nat

text \<open>
  A shader program is known to the renderer through its OpenGL handle (a \<^verbatim>\<open>GLuint\<close>),
  a uniform input through the program it belongs to; \<open>input_id\<close> is the identity of
  the uniform input object.
\<close>

record GlShaderProgram =
  handle :: "32 word"

record GlUniformInput =
  input_id :: nat
  program :: GlShaderProgram

text \<open>
  The renderer casts the uniform input, the program, the target and the geometry of a
  renderable to their OpenGL classes; the model holds objects of these classes only, as
  the factory functions of the renderer make them.

  The fields of a renderable that the renderer reads: \<^verbatim>\<open>obj.uniform\<close>,
  \<^verbatim>\<open>obj.geometry\<close>, \<^verbatim>\<open>obj.alpha_blending\<close> and \<^verbatim>\<open>obj.depth_test\<close>.
\<close>

record Renderable =
  uniform :: GlUniformInput
  geometry :: "Geometry option"
  alpha_blending :: bool
  depth_test :: bool

text \<open>
  The members of \<^verbatim>\<open>class RenderPass\<close>: the renderables ("kept sorted by layer
  priorities (highest to lowest priority)"), the render target and the layers
  ("sorted from highest to lowest priority").
\<close>

record RenderPass =
  renderables :: "Renderable list"
  target :: RenderTarget
  layers :: "Layer list"

text \<open>
  The OpenGL render pass adds the flag that \<^verbatim>\<open>get_is_optimised\<close> reads and
  \<^verbatim>\<open>set_is_optimised\<close> writes.
\<close>

record GlRenderPass = RenderPass +
  is_optimised :: bool

definition get_renderables :: "'a RenderPass_scheme \<Rightarrow> Renderable list" where
  "get_renderables p = renderables p"

definition get_layers :: "'a RenderPass_scheme \<Rightarrow> Layer list" where
  "get_layers p = layers p"

definition get_target :: "'a RenderPass_scheme \<Rightarrow> RenderTarget" where
  "get_target p = target p"

definition get_is_optimised :: "GlRenderPass \<Rightarrow> bool" where
  "get_is_optimised p = is_optimised p"

definition set_is_optimised :: "bool \<Rightarrow> GlRenderPass \<Rightarrow> GlRenderPass" where
  "set_is_optimised flag p = p\<lparr>is_optimised := flag\<rparr>"


section \<open>Mutation of a render pass\<close>

text \<open>
  Modelled from the spec: the bodies of the \<^verbatim>\<open>RenderPass\<close> member functions
  (renderer/render_pass.cpp); the header declares them and holds no body.

  \<^verbatim>\<open>clear_renderables()\<close>: "empties both \<open>renderables\<close> and \<open>layers\<close>; target is
  retained."
\<close>

definition clear_renderables :: "'a RenderPass_scheme \<Rightarrow> 'a RenderPass_scheme" where
  "clear_renderables p = p\<lparr>renderables := [], layers := []\<rparr>"

text \<open>
  Modelled from the spec: the default priority \<^verbatim>\<open>LAYER_PRIORITY_MAX\<close> of
  renderer/definitions.h, the "caller-agreed default priority" written \<open>MAX\<close> in
  \<open>add_renderables(list, priority = MAX)\<close>: the largest signed 64-bit integer.
\<close>

definition LAYER_PRIORITY_MAX :: "64 word" where
  "LAYER_PRIORITY_MAX = 0x7FFFFFFFFFFFFFFF"

text \<open>
  Modelled from the spec: \<^verbatim>\<open>set_renderables(list)\<close> "atomically replaces the whole
  sequence with \<open>list\<close>, treated as a single layer at a caller-agreed default priority;
  invalidates previous layer structure."
\<close>

definition set_renderables :: "Renderable list \<Rightarrow> 'a RenderPass_scheme \<Rightarrow> 'a RenderPass_scheme" where
  "set_renderables rs p =
     p\<lparr>renderables := rs,
       layers := [\<lparr>priority = LAYER_PRIORITY_MAX, length_l = length rs\<rparr>]\<rparr>"

text \<open>The number of renderables held by a run of layers.\<close>

definition span :: "Layer list \<Rightarrow> nat" where
  "span ls = sum_list (map length_l ls)"

text \<open>The index of the first layer with exactly the given priority, if there is one.\<close>

fun find_layer :: "64 word \<Rightarrow> Layer list \<Rightarrow> nat option" where
  "find_layer prio [] = None"
| "find_layer prio (l # ls) =
     (if priority l = prio then Some 0
      else (case find_layer prio ls of None \<Rightarrow> None | Some i \<Rightarrow> Some (Suc i)))"

text \<open>
  The position of a new layer: behind every leading layer of higher priority. On
  layers sorted by descending priority it is the one position that keeps them sorted.
\<close>

definition insert_index :: "64 word \<Rightarrow> Layer list \<Rightarrow> nat" where
  "insert_index prio ls = length (takeWhile (\<lambda>l. prio <s priority l) ls)"

text \<open>\<^verbatim>\<open>std::vector::insert\<close> of a block in front of position \<open>off\<close>.\<close>

definition insert_block :: "nat \<Rightarrow> 'a list \<Rightarrow> 'a list \<Rightarrow> 'a list" where
  "insert_block off new xs = take off xs @ new @ drop off xs"

text \<open>
  Modelled from the spec: \<^verbatim>\<open>add_renderables(list, priority)\<close> "inserts \<open>list\<close> as a
  contiguous block. If a layer with exactly \<open>priority\<close> already exists, the block is
  appended to the end of that layer's span (preserving arrival order within the layer)
  and the layer's \<open>length\<close> grows. Otherwise a new layer is created and inserted at the
  position that keeps \<open>layers\<close> sorted by descending priority".
\<close>

definition add_renderables ::
  "Renderable list \<Rightarrow> 64 word \<Rightarrow> 'a RenderPass_scheme \<Rightarrow> 'a RenderPass_scheme" where
  "add_renderables rs prio p =
     (case find_layer prio (layers p) of
        Some i \<Rightarrow>
          (let l = layers p ! i
           in p\<lparr>renderables := insert_block (span (take (Suc i) (layers p))) rs (renderables p),
                layers := (layers p)[i := l\<lparr>length_l := length_l l + length rs\<rparr>]\<rparr>)
      | None \<Rightarrow>
          (let k = insert_index prio (layers p)
           in p\<lparr>renderables := insert_block (span (take k (layers p))) rs (renderables p),
                layers := insert_block k [\<lparr>priority = prio, length_l = length rs\<rparr>] (layers p)\<rparr>))"

text \<open>
  Modelled from the spec: \<^verbatim>\<open>add_renderables(single, priority)\<close> is the "convenience
  form of the above for one item."
\<close>

definition add_renderable ::
  "Renderable \<Rightarrow> 64 word \<Rightarrow> 'a RenderPass_scheme \<Rightarrow> 'a RenderPass_scheme" where
  "add_renderable r prio p = add_renderables [r] prio p"

text \<open>A sequence of \<^verbatim>\<open>add_renderables\<close> calls, each with its list and its priority.\<close>

fun add_renderables_calls ::
  "(Renderable list \<times> 64 word) list \<Rightarrow> 'a RenderPass_scheme \<Rightarrow> 'a RenderPass_scheme" where
  "add_renderables_calls [] p = p"
| "add_renderables_calls (c # cs) p = add_renderables_calls cs (add_renderables (fst c) (snd c) p)"

text \<open>
  The layer invariant: priorities strictly descending from layer to layer, no priority
  twice, and the layer lengths adding up to the number of renderables.
\<close>

definition layers_descending :: "Layer list \<Rightarrow> bool" where
  "layers_descending ls = sorted_wrt (\<lambda>a b. priority b <s priority a) ls"

definition pass_invariant :: "'a RenderPass_scheme \<Rightarrow> bool" where
  "pass_invariant p \<longleftrightarrow>
     layers_descending (layers p) \<and> distinct (map priority (layers p))
     \<and> span (layers p) = length (renderables p)"


section \<open>Reordering a pass by shader (GlRenderer::optimise)\<close>

text \<open>
  The shader a renderable is bound to, as the comparator of \<^verbatim>\<open>optimise\<close> reads it:
  the handle of the program of its uniform input.
\<close>

definition shader_of :: "Renderable \<Rightarrow> 32 word" where
  "shader_of a = handle (program (uniform a))"

text \<open>The comparator passed to the sort: \<^verbatim>\<open>return shader_a < shader_b\<close> on two \<^verbatim>\<open>GLuint\<close>.\<close>

definition shader_less :: "Renderable \<Rightarrow> Renderable \<Rightarrow> bool" where
  "shader_less a b \<longleftrightarrow> shader_of a < shader_of b"

text \<open>
  \<^verbatim>\<open>std::stable_sort(first, last, comp)\<close> is library code; it is modelled by a stable
  insertion sort over the same comparator: an element is put behind the elements that
  \<open>cmp\<close> orders before it and in front of all others, and the elements are inserted
  from the last to the first, so elements that \<open>cmp\<close> does not separate keep their
  order.
\<close>

fun insert_stable :: "('a \<Rightarrow> 'a \<Rightarrow> bool) \<Rightarrow> 'a \<Rightarrow> 'a list \<Rightarrow> 'a list" where
  "insert_stable cmp x [] = [x]"
| "insert_stable cmp x (y # ys) =
     (if cmp y x then y # insert_stable cmp x ys else x # y # ys)"

definition stable_sort :: "('a \<Rightarrow> 'a \<Rightarrow> bool) \<Rightarrow> 'a list \<Rightarrow> 'a list" where
  "stable_sort cmp xs = foldr (insert_stable cmp) xs []"

text \<open>
  \<^verbatim>\<open>optimise\<close> copies the renderables (\<^verbatim>\<open>auto renderables = pass->get_renderables()\<close>),
  sorts the copy, stores it with \<^verbatim>\<open>set_renderables\<close> and sets the flag; all of it
  only when the flag is not set.
\<close>

definition optimise :: "GlRenderPass \<Rightarrow> GlRenderPass" where
  "optimise pass =
     (if \<not> get_is_optimised pass then
        (let renderables = stable_sort shader_less (get_renderables pass)
         in set_is_optimised True (set_renderables renderables pass))
      else pass)"


section \<open>Executing a pass (GlRenderer::render)\<close>

text \<open>
  The OpenGL context is modelled by the calls issued to it, oldest first. Each call the
  renderer makes appends one entry.
\<close>

datatype GlCap = GL_BLEND | GL_DEPTH_TEST

datatype GlBufferBit = GL_COLOR_BUFFER_BIT | GL_DEPTH_BUFFER_BIT

datatype GlCall =
    BindWrite RenderTarget
  | GlClear "GlBufferBit set"
  | GlEnable GlCap
  | GlDisable GlCap
  | UpdateUniforms GlShaderProgram GlUniformInput
  | Draw Geometry

definition bind_write :: "RenderTarget \<Rightarrow> GlCall list \<Rightarrow> GlCall list" where
  "bind_write tgt gl = gl @ [BindWrite tgt]"

definition glClear :: "GlBufferBit set \<Rightarrow> GlCall list \<Rightarrow> GlCall list" where
  "glClear bits gl = gl @ [GlClear bits]"

definition glEnable :: "GlCap \<Rightarrow> GlCall list \<Rightarrow> GlCall list" where
  "glEnable cap gl = gl @ [GlEnable cap]"

definition glDisable :: "GlCap \<Rightarrow> GlCall list \<Rightarrow> GlCall list" where
  "glDisable cap gl = gl @ [GlDisable cap]"

text \<open>\<^verbatim>\<open>program->update_uniforms(in)\<close>, which "also calls \<^verbatim>\<open>program->use()\<close>".\<close>

definition update_uniforms :: "GlShaderProgram \<Rightarrow> GlUniformInput \<Rightarrow> GlCall list \<Rightarrow> GlCall list" where
  "update_uniforms prog inp gl = gl @ [UpdateUniforms prog inp]"

definition draw :: "Geometry \<Rightarrow> GlCall list \<Rightarrow> GlCall list" where
  "draw geom gl = gl @ [Draw geom]"

text \<open>The body of the loop over the renderables.\<close>

definition render_obj :: "Renderable \<Rightarrow> GlCall list \<Rightarrow> GlCall list" where
  "render_obj obj gl =
     (let gl1 = (if alpha_blending obj then glEnable GL_BLEND gl else glDisable GL_BLEND gl);
          gl2 = (if depth_test obj then glEnable GL_DEPTH_TEST gl1 else glDisable GL_DEPTH_TEST gl1);
          inp = uniform obj;
          prog = program inp;
          gl3 = update_uniforms prog inp gl2
      in (case geometry obj of
            Some geom \<Rightarrow> draw geom gl3
          | None \<Rightarrow> gl3))"

fun render_loop :: "Renderable list \<Rightarrow> GlCall list \<Rightarrow> GlCall list" where
  "render_loop [] gl = gl"
| "render_loop (obj # objs) gl = render_loop objs (render_obj obj gl)"

text \<open>
  \<^verbatim>\<open>render\<close> works on a pointer to the pass; the model returns the pass together
  with the context, so that what the call does to the pass is part of its result.
\<close>

definition render :: "GlRenderPass \<Rightarrow> GlCall list \<Rightarrow> GlRenderPass \<times> GlCall list" where
  "render pass gl =
     (let gl1 = bind_write (get_target pass) gl;
          gl2 = glClear {GL_COLOR_BUFFER_BIT, GL_DEPTH_BUFFER_BIT} gl1;
          gl3 = render_loop (get_renderables pass) gl2
      in (pass, gl3))"

text \<open>
  The calls the spec lists for one renderable, steps 3a to 3d of \<open>render(pass)\<close>:
  blending per \<open>alpha_blending\<close>, depth testing per \<open>depth_test\<close>, the binding of
  the parameter object to its program, and the draw call if the geometry is present.
\<close>

definition blend_call :: "Renderable \<Rightarrow> GlCall" where
  "blend_call r = (if alpha_blending r then GlEnable GL_BLEND else GlDisable GL_BLEND)"

definition depth_call :: "Renderable \<Rightarrow> GlCall" where
  "depth_call r = (if depth_test r then GlEnable GL_DEPTH_TEST else GlDisable GL_DEPTH_TEST)"

definition bind_call :: "Renderable \<Rightarrow> GlCall" where
  "bind_call r = UpdateUniforms (program (uniform r)) (uniform r)"

definition spec_calls :: "Renderable \<Rightarrow> GlCall list" where
  "spec_calls r =
     [blend_call r, depth_call r, bind_call r]
     @ (case geometry r of None \<Rightarrow> [] | Some g \<Rightarrow> [Draw g])"

fun is_draw :: "GlCall \<Rightarrow> bool" where
  "is_draw (Draw g) = True"
| "is_draw c = False"


section \<open>Layout of a uniform buffer (GlRenderer::add_uniform_buffer)\<close>

text \<open>
  One input of a \<^verbatim>\<open>UniformBufferInfo\<close> with the members the renderer reads
  (\<^verbatim>\<open>input.name\<close>, \<^verbatim>\<open>input.type\<close>, \<^verbatim>\<open>input.count\<close>) and the entry computed for it,
  \<^verbatim>\<open>GlInBlockUniform{type, offset, size, stride, count}\<close>. The field names carry a
  suffix where the plain name is taken in HOL. \<^verbatim>\<open>size_t\<close> is a 64-bit word.
\<close>

record 't UniformBufferInput =
  name :: string
  type_i :: 't
  count_i :: "64 word"

record ('t, 'l) UniformBufferInfo =
  inputs :: "'t UniformBufferInput list"
  layout :: 'l

record 'g GlInBlockUniform =
  type_u :: 'g
  offset :: "64 word"
  size_u :: "64 word"
  stride :: "64 word"
  count_u :: "64 word"

record 'g GlUniformBuffer =
  data_size :: "64 word"
  uniforms :: "string \<rightharpoonup> 'g GlInBlockUniform"

text \<open>
  The tables and functions of renderer/resources/buffer_info.h and
  renderer/opengl/lookup.h that \<^verbatim>\<open>add_uniform_buffer\<close> calls are parameters of the
  model: the table \<^verbatim>\<open>GL_UBO_INPUT_TYPE\<close>, the static functions
  \<^verbatim>\<open>UniformBufferInfo::get_size(input, layout)\<close> and
  \<^verbatim>\<open>UniformBufferInfo::get_stride_size(type, layout)\<close>, and the member
  \<^verbatim>\<open>info.get_size()\<close>.
\<close>

record ('t, 'l, 'g) BufferInfoFns =
  GL_UBO_INPUT_TYPE :: "'t \<Rightarrow> 'g"
  get_size :: "'t UniformBufferInput \<Rightarrow> 'l \<Rightarrow> 64 word"
  get_stride_size :: "'t \<Rightarrow> 'l \<Rightarrow> 64 word"
  info_get_size :: "('t, 'l) UniformBufferInfo \<Rightarrow> 64 word"

text \<open>\<^verbatim>\<open>std::unordered_map::emplace\<close>: an entry whose key is present stays as it is.\<close>

definition emplace :: "'k \<Rightarrow> 'v \<Rightarrow> ('k \<rightharpoonup> 'v) \<Rightarrow> ('k \<rightharpoonup> 'v)" where
  "emplace k v m = (case m k of None \<Rightarrow> m(k \<mapsto> v) | Some old \<Rightarrow> m)"

text \<open>
  The loop over the inputs, with the running offset and the map built so far. The
  remainder \<^verbatim>\<open>offset % size\<close> is undefined for a size of zero: the model stops with
  \<open>None\<close> there.
\<close>

fun layout_inputs ::
  "('t, 'l, 'g) BufferInfoFns \<Rightarrow> 'l \<Rightarrow> 't UniformBufferInput list \<Rightarrow> 64 word
   \<Rightarrow> (string \<rightharpoonup> 'g GlInBlockUniform) \<Rightarrow> (64 word \<times> (string \<rightharpoonup> 'g GlInBlockUniform)) option" where
  "layout_inputs F lay [] off us = Some (off, us)"
| "layout_inputs F lay (input # rest) off us =
     (let ty = GL_UBO_INPUT_TYPE F (type_i input);
          sz = get_size F input lay
      in if sz = 0 then None
         else
           (let off1 = off + off mod sz;
                us1 = emplace (name input)
                        \<lparr>type_u = ty, offset = off1, size_u = get_size F input lay,
                         stride = get_stride_size F (type_i input) lay,
                         count_u = count_i input\<rparr> us
            in layout_inputs F lay rest (off1 + sz) us1))"

definition add_uniform_buffer ::
  "('t, 'l, 'g) BufferInfoFns \<Rightarrow> ('t, 'l) UniformBufferInfo \<Rightarrow> 'g GlUniformBuffer option" where
  "add_uniform_buffer F info =
     (case layout_inputs F (layout info) (inputs info) 0 Map.empty of
        None \<Rightarrow> None
      | Some (off, us) \<Rightarrow> Some \<lparr>data_size = info_get_size F info, uniforms = us\<rparr>)"

text \<open>
  The rule of the spec for an offset: "the smallest value \<open>\<ge>\<close> the previous input's end
  that satisfies the type's required alignment (offset must be a multiple of the type's
  natural size)".
\<close>

definition spec_align :: "nat \<Rightarrow> nat \<Rightarrow> nat" where
  "spec_align prev_end sz = ((prev_end + sz - 1) div sz) * sz"

text \<open>
  Modelled from the spec: the input types and sizes of the example of the spec under
  the standard packed convention (the enums \<^verbatim>\<open>ubo_input_t\<close> and \<^verbatim>\<open>ubo_layout_t\<close> and
  the size table are in renderer/resources/buffer_info.h): a \<open>float\<close> is a "4-byte
  scalar" and "a 4-component vector aligns to 16 bytes". The size of an input is the
  size of its type times its count; the stride of a type is its size.
\<close>

datatype ubo_input_t = F32 | V4F32

datatype ubo_layout_t = STD140

datatype gl_type = GL_FLOAT | GL_FLOAT_VEC4

fun std140_size :: "ubo_input_t \<Rightarrow> 64 word" where
  "std140_size F32 = 4"
| "std140_size V4F32 = 16"

fun std140_gl_type :: "ubo_input_t \<Rightarrow> gl_type" where
  "std140_gl_type F32 = GL_FLOAT"
| "std140_gl_type V4F32 = GL_FLOAT_VEC4"

definition std140_fns :: "64 word \<Rightarrow> (ubo_input_t, ubo_layout_t, gl_type) BufferInfoFns" where
  "std140_fns total_size =
     \<lparr>GL_UBO_INPUT_TYPE = std140_gl_type,
      get_size = (\<lambda>input lay. std140_size (type_i input) * count_i input),
      get_stride_size = (\<lambda>t lay. std140_size t),
      info_get_size = (\<lambda>info. total_size)\<rparr>"

text \<open>The inputs \<open>[vec4 a, float b, vec4 c]\<close> of the spec's example.\<close>

definition example_info :: "(ubo_input_t, ubo_layout_t) UniformBufferInfo" where
  "example_info =
     \<lparr>inputs = [\<lparr>name = ''a'', type_i = V4F32, count_i = 1\<rparr>,
                \<lparr>name = ''b'', type_i = F32, count_i = 1\<rparr>,
                \<lparr>name = ''c'', type_i = V4F32, count_i = 1\<rparr>],
      layout = STD140\<rparr>"


section \<open>Example values\<close>

text \<open>Three renderables on two shader programs; the second has no geometry.\<close>

definition example_r1 :: Renderable where
  "example_r1 = \<lparr>uniform = \<lparr>input_id = 1, program = \<lparr>handle = 7\<rparr>\<rparr>, geometry = Some 1,
                   alpha_blending = True, depth_test = False\<rparr>"

definition example_r2 :: Renderable where
  "example_r2 = \<lparr>uniform = \<lparr>input_id = 2, program = \<lparr>handle = 3\<rparr>\<rparr>, geometry = None,
                   alpha_blending = False, depth_test = True\<rparr>"

definition example_r3 :: Renderable where
  "example_r3 = \<lparr>uniform = \<lparr>input_id = 3, program = \<lparr>handle = 7\<rparr>\<rparr>, geometry = Some 4,
                   alpha_blending = False, depth_test = True\<rparr>"

definition empty_pass :: GlRenderPass where
  "empty_pass = \<lparr>renderables = [], target = 0, layers = [], is_optimised = False\<rparr>"

text \<open>Calls of \<^verbatim>\<open>add_renderables\<close> that repeat a priority and use a negative one.\<close>

definition example_calls :: "(Renderable list \<times> 64 word) list" where
  "example_calls = [([example_r1], 5), ([example_r2, example_r3], 10), ([example_r2], 5), ([example_r1], - 3)]"

text \<open>A pass of three renderables whose flag is not set, and the same pass with the flag set.\<close>

definition unsorted_pass :: GlRenderPass where
  "unsorted_pass = \<lparr>renderables = [example_r1, example_r2, example_r3], target = 0,
                     layers = [\<lparr>priority = 0, length_l = 3\<rparr>], is_optimised = False\<rparr>"

definition flagged_pass :: GlRenderPass where
  "flagged_pass = set_is_optimised True unsorted_pass"

section \<open>Layer order under add_renderables\<close>

lemma find_layer_Some:
  "find_layer prio ls = Some i \<Longrightarrow> i < length ls \<and> priority (ls ! i) = prio"
proof (induction ls arbitrary: i)
  case Nil
  then show ?case by simp
next
  case (Cons l ls)
  then show ?case by (auto split: if_splits option.splits)
qed

lemma find_layer_None:
  "find_layer prio ls = None \<Longrightarrow> prio \<notin> set (map priority ls)"
  by (induction ls) (auto split: if_splits option.splits)

lemma length_insert_block: "length (insert_block off new xs) = length xs + length new"
  by (simp add: insert_block_def)

lemma span_append: "span (xs @ ys) = span xs + span ys"
  by (simp add: span_def)

lemma span_insert_block: "span (insert_block k new ls) = span ls + span new"
proof -
  have "span (take k ls) + span (drop k ls) = span ls"
    by (metis span_append append_take_drop_id)
  then show ?thesis by (simp add: insert_block_def span_append)
qed

lemma span_grow:
  "i < length ls \<Longrightarrow> span (ls[i := (ls ! i)\<lparr>length_l := length_l (ls ! i) + n\<rparr>]) = span ls + n"
proof (induction ls arbitrary: i)
  case Nil
  then show ?case by simp
next
  case (Cons l ls)
  then show ?case by (cases i) (simp_all add: span_def)
qed

lemma priorities_grow:
  "i < length ls \<Longrightarrow> map priority (ls[i := (ls ! i)\<lparr>length_l := m\<rparr>]) = map priority ls"
  by (simp add: map_update list_update_same_conv)

lemma layers_descending_map:
  "layers_descending ls \<longleftrightarrow> sorted_wrt (\<lambda>a b. b <s a) (map priority ls)"
  by (simp add: layers_descending_def sorted_wrt_map)

lemma sless_cases: "\<not> a <s b \<Longrightarrow> a \<noteq> b \<Longrightarrow> b <s (a :: 64 word)"
  by (meson linorder_neqE signed.less_linear)

lemma sless_trans: "a <s b \<Longrightarrow> b <s c \<Longrightarrow> a <s (c :: 64 word)"
  by (simp add: word_sless_alt)

lemma descending_insert:
  assumes "layers_descending ls" and "prio \<notin> set (map priority ls)"
  shows "layers_descending (insert_block (insert_index prio ls) [\<lparr>priority = prio, length_l = n\<rparr>] ls)"
  using assms
proof (induction ls)
  case Nil
  then show ?case by (simp add: insert_block_def insert_index_def layers_descending_def)
next
  case (Cons l ls)
  show ?case
  proof (cases "prio <s priority l")
    case True
    have tail: "layers_descending (insert_block (insert_index prio ls) [\<lparr>priority = prio, length_l = n\<rparr>] ls)"
      using Cons by (simp add: layers_descending_def)
    have "\<forall>x \<in> set ls. priority x <s priority l"
      using Cons.prems(1) by (simp add: layers_descending_def)
    with True tail show ?thesis
      by (auto simp: insert_block_def insert_index_def layers_descending_def
               dest: in_set_takeD in_set_dropD)
  next
    case False
    then have lt: "priority l <s prio"
      using Cons.prems(2) sless_cases [of prio "priority l"] by auto
    have "\<forall>x \<in> set ls. priority x <s priority l"
      using Cons.prems(1) by (simp add: layers_descending_def)
    then have "\<forall>x \<in> set ls. priority x <s prio"
      using lt sless_trans by blast
    with False lt Cons.prems(1) show ?thesis
      by (simp add: insert_block_def insert_index_def layers_descending_def)
  qed
qed

lemma add_renderables_invariant:
  assumes "pass_invariant p"
  shows "pass_invariant (add_renderables rs prio p)"
proof (cases "find_layer prio (layers p)")
  case None
  then have notin: "prio \<notin> set (map priority (layers p))"
    by (rule find_layer_None)
  have d: "layers_descending (insert_block (insert_index prio (layers p))
             [\<lparr>priority = prio, length_l = length rs\<rparr>] (layers p))"
    using assms notin by (intro descending_insert) (simp_all add: pass_invariant_def)
  have "distinct (map priority (take k (layers p)) @ prio # map priority (drop k (layers p)))" for k
  proof -
    have "distinct (map priority (take k (layers p)) @ map priority (drop k (layers p)))"
      using assms by (metis pass_invariant_def append_take_drop_id map_append)
    moreover have "prio \<notin> set (map priority (take k (layers p)))"
      "prio \<notin> set (map priority (drop k (layers p)))"
      using notin by (auto dest: in_set_takeD in_set_dropD)
    ultimately show ?thesis by auto
  qed
  then have dist: "distinct (map priority (insert_block k [\<lparr>priority = prio, length_l = length rs\<rparr>] (layers p)))" for k
    by (simp add: insert_block_def)
  show ?thesis
    using None assms d dist
    by (simp add: add_renderables_def pass_invariant_def Let_def span_insert_block
        length_insert_block)
       (simp add: span_def)
next
  case (Some i)
  then have i: "i < length (layers p)"
    using find_layer_Some by blast
  show ?thesis
    using Some assms i
    by (simp add: add_renderables_def pass_invariant_def Let_def span_grow priorities_grow
        layers_descending_map length_insert_block)
qed

lemma calls_invariant:
  "pass_invariant p \<Longrightarrow> pass_invariant (add_renderables_calls cs p)"
  by (induction cs arbitrary: p) (simp_all add: add_renderables_invariant)

lemma clear_invariant: "pass_invariant (clear_renderables p)"
  by (simp add: pass_invariant_def clear_renderables_def layers_descending_def span_def)

lemma set_renderables_invariant: "pass_invariant (set_renderables rs p)"
  by (simp add: pass_invariant_def set_renderables_def layers_descending_def span_def)

lemma empty_pass_invariant: "pass_invariant empty_pass"
  by (simp add: pass_invariant_def empty_pass_def layers_descending_def span_def)

text \<open>
  C2: for every sequence of \<^verbatim>\<open>add_renderables\<close> calls with arbitrary priorities, on a
  pass whose layers are in strictly descending order and add up to its renderables
  (such as a cleared pass or one filled by \<^verbatim>\<open>set_renderables\<close>), the resulting layers
  are sorted by strictly descending priority, no priority occurs twice, and the sum of
  the layer lengths is the number of renderables.
\<close>

theorem add_renderables_keeps_layers_sorted:
  assumes "pass_invariant p"
  shows "layers_descending (get_layers (add_renderables_calls cs p))
     \<and> distinct (map priority (get_layers (add_renderables_calls cs p)))
     \<and> span (get_layers (add_renderables_calls cs p))
         = length (get_renderables (add_renderables_calls cs p))"
  using calls_invariant [OF assms, of cs]
  by (simp add: pass_invariant_def get_layers_def get_renderables_def)

theorem add_renderables_keeps_layers_sorted_witness:
  "pass_invariant empty_pass
   \<and> layers_descending (get_layers (add_renderables_calls example_calls empty_pass))
   \<and> distinct (map priority (get_layers (add_renderables_calls example_calls empty_pass)))
   \<and> span (get_layers (add_renderables_calls example_calls empty_pass))
       = length (get_renderables (add_renderables_calls example_calls empty_pass))"
  using add_renderables_keeps_layers_sorted [OF empty_pass_invariant, of example_calls]
    empty_pass_invariant
  by simp


section \<open>The order of two layers\<close>

lemma span_zero: "(\<forall>l \<in> set ls. length_l l = 0) \<Longrightarrow> span ls = 0"
  by (simp add: span_def)

lemma span_zeroD: "span ls = 0 \<Longrightarrow> l \<in> set ls \<Longrightarrow> length_l l = 0"
  by (auto simp: span_def)

lemma prefix_of_found:
  "layers_descending ls \<Longrightarrow> find_layer prio ls = Some i \<Longrightarrow>
     l \<in> set (take (Suc i) ls) \<Longrightarrow> priority l = prio \<or> prio <s priority l"
proof (induction ls arbitrary: i)
  case Nil
  then show ?case by simp
next
  case (Cons a ls)
  show ?case
  proof (cases "priority a = prio")
    case True
    with Cons.prems show ?thesis by simp
  next
    case False
    then obtain j where j: "find_layer prio ls = Some j" and i: "i = Suc j"
      using Cons.prems(2) by (auto split: option.splits)
    have below: "\<forall>x \<in> set ls. priority x <s priority a" and tl: "layers_descending ls"
      using Cons.prems(1) by (simp_all add: layers_descending_def)
    have "j < length ls" "priority (ls ! j) = prio"
      using find_layer_Some [OF j] by simp_all
    then have "prio <s priority a"
      using below nth_mem by blast
    moreover have "l = a \<or> l \<in> set (take (Suc j) ls)"
      using Cons.prems(3) i by simp
    ultimately show ?thesis
      using Cons.IH [OF tl j] by blast
  qed
qed

lemma prefix_of_insert_index:
  "l \<in> set (take (insert_index prio ls) ls) \<Longrightarrow> prio <s priority l"
  by (metis insert_index_def set_takeWhileD takeWhile_eq_take)

lemma add_first_layers:
  assumes "pass_invariant p" and "renderables p = []"
    and "l \<in> set (layers (add_renderables rs prio p))"
  shows "priority l = prio \<or> length_l l = 0"
proof -
  have zero: "\<And>x. x \<in> set (layers p) \<Longrightarrow> length_l x = 0"
    using assms(1,2) span_zeroD [of "layers p"] by (simp add: pass_invariant_def)
  show ?thesis
  proof (cases "find_layer prio (layers p)")
    case None
    then have "l \<in> set (insert_block (insert_index prio (layers p))
                 [\<lparr>priority = prio, length_l = length rs\<rparr>] (layers p))"
      using assms(3) by (simp add: add_renderables_def Let_def)
    then have "l = \<lparr>priority = prio, length_l = length rs\<rparr> \<or> l \<in> set (layers p)"
      by (auto simp: insert_block_def dest: in_set_takeD in_set_dropD)
    then show ?thesis using zero by auto
  next
    case (Some i)
    then have i: "i < length (layers p)" "priority (layers p ! i) = prio"
      using find_layer_Some by blast+
    have "l \<in> set ((layers p)[i := (layers p ! i)\<lparr>length_l := length_l (layers p ! i) + length rs\<rparr>])"
      using assms(3) Some by (simp add: add_renderables_def Let_def)
    then have "l = (layers p ! i)\<lparr>length_l := length_l (layers p ! i) + length rs\<rparr> \<or> l \<in> set (layers p)"
      using set_update_subset_insert by fastforce
    then show ?thesis using zero i by auto
  qed
qed

lemma add_to_empty:
  "renderables p = [] \<Longrightarrow> renderables (add_renderables rs prio p) = rs"
  by (simp add: add_renderables_def insert_block_def Let_def split: option.splits)

lemma add_in_front:
  assumes inv: "layers_descending (layers p)"
    and low: "\<And>l. l \<in> set (layers p) \<Longrightarrow> priority l = q \<or> length_l l = 0"
    and "q <s prio"
  shows "renderables (add_renderables rs prio p) = rs @ renderables p"
proof (cases "find_layer prio (layers p)")
  case None
  have "length_l l = 0" if "l \<in> set (take (insert_index prio (layers p)) (layers p))" for l
  proof -
    have "prio <s priority l" using that by (rule prefix_of_insert_index)
    then have "priority l \<noteq> q" using assms(3) by (auto simp: word_sless_alt)
    then show ?thesis using low that by (meson in_set_takeD)
  qed
  then have "span (take (insert_index prio (layers p)) (layers p)) = 0"
    by (simp add: span_zero)
  then show ?thesis using None by (simp add: add_renderables_def insert_block_def Let_def)
next
  case (Some i)
  have "length_l l = 0" if "l \<in> set (take (Suc i) (layers p))" for l
  proof -
    have "priority l = prio \<or> prio <s priority l"
      using prefix_of_found [OF inv Some that] .
    then have "priority l \<noteq> q" using assms(3) by (auto simp: word_sless_alt)
    then show ?thesis using low that by (meson in_set_takeD)
  qed
  then have "span (take (Suc i) (layers p)) = 0"
    by (simp add: span_zero)
  then show ?thesis using Some by (simp add: add_renderables_def insert_block_def Let_def)
qed

text \<open>
  C7: on a pass that holds no renderables yet (its layers in order and all empty, as on
  a new pass), \<^verbatim>\<open>add_renderables\<close> with \<open>r1\<close> at priority 5 followed by
  \<^verbatim>\<open>add_renderables\<close> with \<open>r2\<close> at priority 10 yields \<open>get_renderables() = [r2, r1]\<close>.
\<close>

theorem add_renderables_priority_10_before_5:
  assumes "pass_invariant p" and "get_renderables p = []"
  shows "get_renderables (add_renderable r2 10 (add_renderable r1 5 p)) = [r2, r1]"
proof -
  let ?p1 = "add_renderables [r1] 5 p"
  have e: "renderables p = []" using assms(2) by (simp add: get_renderables_def)
  have r1: "renderables ?p1 = [r1]" using e by (rule add_to_empty)
  have inv1: "layers_descending (layers ?p1)"
    using add_renderables_invariant [OF assms(1)] by (simp add: pass_invariant_def)
  have low: "\<And>l. l \<in> set (layers ?p1) \<Longrightarrow> priority l = 5 \<or> length_l l = 0"
    by (rule add_first_layers [OF assms(1) e])
  have lt: "(5 :: 64 word) <s 10" by (simp add: word_sless_alt)
  have "renderables (add_renderables [r2] 10 ?p1) = [r2] @ renderables ?p1"
    using inv1 low lt by (rule add_in_front)
  then show ?thesis using r1 by (simp add: get_renderables_def add_renderable_def)
qed

theorem add_renderables_priority_10_before_5_witness:
  "pass_invariant empty_pass \<and> get_renderables empty_pass = []
   \<and> get_renderables (add_renderable example_r2 10 (add_renderable example_r1 5 empty_pass))
       = [example_r2, example_r1]"
proof -
  have e: "get_renderables empty_pass = []"
    by (simp add: get_renderables_def empty_pass_def)
  show ?thesis
    using add_renderables_priority_10_before_5 [OF empty_pass_invariant e, of example_r2 example_r1]
      empty_pass_invariant e
    by simp
qed


section \<open>Clearing a pass\<close>

text \<open>
  C8: after \<^verbatim>\<open>clear_renderables()\<close> on any render pass, \<^verbatim>\<open>get_renderables()\<close> and
  \<^verbatim>\<open>get_layers()\<close> return the empty sequence and \<^verbatim>\<open>get_target()\<close> returns the
  target it returned before the call.
\<close>

theorem clear_renderables_empties_keeps_target:
  "get_renderables (clear_renderables p) = []
   \<and> get_layers (clear_renderables p) = []
   \<and> get_target (clear_renderables p) = get_target p"
  by (simp add: get_renderables_def get_layers_def get_target_def clear_renderables_def)


section \<open>Sorting by shader\<close>

lemma mset_insert_stable: "mset (insert_stable cmp x ys) = add_mset x (mset ys)"
  by (induction ys) simp_all

lemma mset_stable_sort: "mset (stable_sort cmp xs) = mset xs"
  by (induction xs) (simp_all add: stable_sort_def mset_insert_stable)

lemma set_insert_stable: "set (insert_stable cmp x ys) = insert x (set ys)"
  by (induction ys) auto

lemma sorted_insert_stable:
  fixes key :: "'a \<Rightarrow> 'k::linorder"
  assumes "sorted (map key ys)"
  shows "sorted (map key (insert_stable (\<lambda>a b. key a < key b) x ys))"
  using assms
proof (induction ys)
  case Nil
  then show ?case by simp
next
  case (Cons y ys)
  show ?case
  proof (cases "key y < key x")
    case True
    with Cons show ?thesis
      by (auto simp: set_insert_stable)
  next
    case False
    with Cons.prems show ?thesis by auto
  qed
qed

lemma sorted_stable_sort:
  fixes key :: "'a \<Rightarrow> 'k::linorder"
  shows "sorted (map key (stable_sort (\<lambda>a b. key a < key b) xs))"
  by (induction xs) (simp_all add: stable_sort_def sorted_insert_stable)

lemma filter_insert_stable:
  fixes key :: "'a \<Rightarrow> 'k::linorder"
  shows "filter (\<lambda>r. key r = h) (insert_stable (\<lambda>a b. key a < key b) x ys)
         = (if key x = h then x # filter (\<lambda>r. key r = h) ys else filter (\<lambda>r. key r = h) ys)"
  by (induction ys) auto

lemma filter_stable_sort:
  fixes key :: "'a \<Rightarrow> 'k::linorder"
  shows "filter (\<lambda>r. key r = h) (stable_sort (\<lambda>a b. key a < key b) xs) = filter (\<lambda>r. key r = h) xs"
  by (induction xs) (simp_all add: stable_sort_def filter_insert_stable)

lemma shader_less_eq: "shader_less = (\<lambda>a b. shader_of a < shader_of b)"
  by (simp add: shader_less_def fun_eq_iff)

lemma renderables_optimise:
  "get_renderables (optimise p) =
     (if get_is_optimised p then get_renderables p
      else stable_sort shader_less (get_renderables p))"
  by (simp add: optimise_def get_renderables_def set_renderables_def set_is_optimised_def
      get_is_optimised_def Let_def)

lemma is_optimised_optimise: "get_is_optimised (optimise p)"
  by (simp add: optimise_def set_renderables_def set_is_optimised_def get_is_optimised_def Let_def)

lemma optimise_flagged: "get_is_optimised p \<Longrightarrow> optimise p = p"
  by (simp add: optimise_def)

text \<open>
  C3, amended: for every render pass whose completion flag is not set, or whose
  renderables are already in non-decreasing shader order (as they are while the flag
  stands for a sort that no change has followed), \<^verbatim>\<open>optimise(pass)\<close> stable-sorts the
  whole renderable sequence (not per layer) by the shader handle: in the result the
  handles are in non-decreasing order over the whole sequence, and the renderables of
  any one shader are the same, in the same order, as before the call. On a pass whose
  flag is set, \<^verbatim>\<open>optimise\<close> changes nothing: the pass after the call is the pass
  before it.
\<close>

theorem optimise_stable_sorts_by_shader:
  "((\<not> get_is_optimised p \<or> sorted (map shader_of (get_renderables p))) \<longrightarrow>
      sorted (map shader_of (get_renderables (optimise p)))
      \<and> (\<forall>h. filter (\<lambda>r. shader_of r = h) (get_renderables (optimise p))
             = filter (\<lambda>r. shader_of r = h) (get_renderables p)))
   \<and> (get_is_optimised p \<longrightarrow> optimise p = p)"
proof (cases "get_is_optimised p")
  case True
  then show ?thesis
    by (simp add: optimise_flagged)
next
  case False
  then show ?thesis
    by (simp add: renderables_optimise shader_less_eq sorted_stable_sort filter_stable_sort)
qed

theorem optimise_stable_sorts_by_shader_witness:
  "\<not> get_is_optimised unsorted_pass
   \<and> map shader_of (get_renderables unsorted_pass) = [7, 3, 7]
   \<and> sorted (map shader_of (get_renderables (optimise unsorted_pass)))
   \<and> (\<forall>h. filter (\<lambda>r. shader_of r = h) (get_renderables (optimise unsorted_pass))
          = filter (\<lambda>r. shader_of r = h) (get_renderables unsorted_pass))
   \<and> get_is_optimised flagged_pass
   \<and> optimise flagged_pass = flagged_pass"
proof -
  have u: "\<not> get_is_optimised unsorted_pass"
    by (simp add: get_is_optimised_def unsorted_pass_def)
  have f: "get_is_optimised flagged_pass"
    by (simp add: get_is_optimised_def flagged_pass_def set_is_optimised_def)
  have m: "map shader_of (get_renderables unsorted_pass) = [7, 3, 7]"
    by (simp add: get_renderables_def unsorted_pass_def shader_of_def
        example_r1_def example_r2_def example_r3_def)
  show ?thesis
    using optimise_stable_sorts_by_shader [of unsorted_pass]
      optimise_stable_sorts_by_shader [of flagged_pass] u f m
    by blast
qed

text \<open>
  C3 as stated fails on a pass whose flag is set: \<^verbatim>\<open>optimise\<close> leaves its renderables
  as they are, here with the handles 7, 3, 7.
\<close>

theorem optimise_flagged_pass_stays_unsorted:
  "get_is_optimised flagged_pass
   \<and> map shader_of (get_renderables (optimise flagged_pass)) = [7, 3, 7]
   \<and> \<not> sorted (map shader_of (get_renderables (optimise flagged_pass)))"
  by (simp add: flagged_pass_def unsorted_pass_def optimise_def get_is_optimised_def
      set_is_optimised_def get_renderables_def shader_of_def
      example_r1_def example_r2_def example_r3_def)

text \<open>
  C4: calling \<^verbatim>\<open>optimise\<close> twice in a row leaves the pass exactly as after the first
  call; the first call leaves the completion flag set, so the second changes nothing.
\<close>

theorem optimise_twice_is_optimise_once:
  "optimise (optimise p) = optimise p \<and> get_is_optimised (optimise p)"
  using is_optimised_optimise [of p] by (simp add: optimise_def [of "optimise p"])

text \<open>
  C9: the renderables of a pass after \<^verbatim>\<open>optimise\<close> are a permutation of the
  renderables before: the multiset of renderables is the same.
\<close>

theorem optimise_permutes_renderables:
  "mset (get_renderables (optimise p)) = mset (get_renderables p)"
  by (simp add: renderables_optimise mset_stable_sort)


section \<open>The calls of render\<close>

lemma render_obj_calls: "render_obj obj gl = gl @ spec_calls obj"
  by (simp add: render_obj_def spec_calls_def blend_call_def depth_call_def bind_call_def
      glEnable_def glDisable_def update_uniforms_def draw_def Let_def split: option.splits)

lemma render_loop_calls: "render_loop objs gl = gl @ concat (map spec_calls objs)"
  by (induction objs arbitrary: gl) (simp_all add: render_obj_calls)

lemma render_loop_append: "render_loop (xs @ ys) gl = render_loop ys (render_loop xs gl)"
  by (induction xs arbitrary: gl) simp_all

text \<open>
  C5: \<^verbatim>\<open>render(pass)\<close> first binds the target of the pass and clears the color and
  depth buffers, then issues the calls of each renderable in the stored order: blending
  enabled if \<open>alpha_blending\<close> is set and disabled otherwise, depth testing enabled if
  \<open>depth_test\<close> is set and disabled otherwise, the binding of the uniform input to
  its program, and the draw call of its geometry if there is one. On a pass with no
  renderables it binds and clears and draws nothing.
\<close>

theorem render_calls_in_stored_order:
  "snd (render pass gl) =
     gl @ [BindWrite (get_target pass), GlClear {GL_COLOR_BUFFER_BIT, GL_DEPTH_BUFFER_BIT}]
        @ concat (map spec_calls (get_renderables pass))
   \<and> (get_renderables pass = [] \<longrightarrow>
        snd (render pass gl) =
          gl @ [BindWrite (get_target pass), GlClear {GL_COLOR_BUFFER_BIT, GL_DEPTH_BUFFER_BIT}]
        \<and> filter is_draw (snd (render pass gl)) = filter is_draw gl)"
  by (simp add: render_def Let_def bind_write_def glClear_def render_loop_calls)

theorem render_calls_in_stored_order_witness:
  "get_renderables empty_pass = []
   \<and> snd (render empty_pass []) = [BindWrite 0, GlClear {GL_COLOR_BUFFER_BIT, GL_DEPTH_BUFFER_BIT}]
   \<and> filter is_draw (snd (render empty_pass [])) = []"
proof -
  have e: "get_renderables empty_pass = []"
    by (simp add: get_renderables_def empty_pass_def)
  have t: "get_target empty_pass = 0"
    by (simp add: get_target_def empty_pass_def)
  show ?thesis
    using render_calls_in_stored_order [of empty_pass "[]"] e t by simp
qed

text \<open>
  C6: for a renderable without geometry, at any place in the pass, \<^verbatim>\<open>render\<close> issues
  its blending call, its depth-test call and the binding of its uniform input, issues
  no draw call for it, and goes on with the renderables behind it.
\<close>

theorem render_without_geometry_skips_draw:
  assumes "geometry obj = None" and "get_renderables pass = before @ obj # after"
  shows "snd (render pass gl) =
     render_loop after
       (render_loop before
          (gl @ [BindWrite (get_target pass), GlClear {GL_COLOR_BUFFER_BIT, GL_DEPTH_BUFFER_BIT}])
        @ [if alpha_blending obj then GlEnable GL_BLEND else GlDisable GL_BLEND,
           if depth_test obj then GlEnable GL_DEPTH_TEST else GlDisable GL_DEPTH_TEST,
           UpdateUniforms (program (uniform obj)) (uniform obj)])"
  using assms
  by (simp add: render_def Let_def bind_write_def glClear_def render_loop_append
      render_obj_def glEnable_def glDisable_def update_uniforms_def)

theorem render_without_geometry_skips_draw_witness:
  "geometry example_r2 = None
   \<and> get_renderables unsorted_pass = [example_r1] @ example_r2 # [example_r3]
   \<and> snd (render unsorted_pass []) =
       [BindWrite 0, GlClear {GL_COLOR_BUFFER_BIT, GL_DEPTH_BUFFER_BIT},
        GlEnable GL_BLEND, GlDisable GL_DEPTH_TEST,
        UpdateUniforms \<lparr>handle = 7\<rparr> \<lparr>input_id = 1, program = \<lparr>handle = 7\<rparr>\<rparr>, Draw 1,
        GlDisable GL_BLEND, GlEnable GL_DEPTH_TEST,
        UpdateUniforms \<lparr>handle = 3\<rparr> \<lparr>input_id = 2, program = \<lparr>handle = 3\<rparr>\<rparr>,
        GlDisable GL_BLEND, GlEnable GL_DEPTH_TEST,
        UpdateUniforms \<lparr>handle = 7\<rparr> \<lparr>input_id = 3, program = \<lparr>handle = 7\<rparr>\<rparr>, Draw 4]"
proof -
  have g: "geometry example_r2 = None"
    by (simp add: example_r2_def)
  have r: "get_renderables unsorted_pass = [example_r1] @ example_r2 # [example_r3]"
    by (simp add: get_renderables_def unsorted_pass_def)
  have t: "get_target unsorted_pass = 0"
    by (simp add: get_target_def unsorted_pass_def)
  show ?thesis
    using render_without_geometry_skips_draw [OF g r, of "[]"] g r t
    by (simp add: render_obj_def glEnable_def glDisable_def update_uniforms_def draw_def
        example_r1_def example_r2_def example_r3_def)
qed

text \<open>
  C10: \<^verbatim>\<open>render(pass)\<close> does not change the pass: after the call
  \<^verbatim>\<open>get_renderables()\<close>, \<^verbatim>\<open>get_layers()\<close> and \<^verbatim>\<open>get_target()\<close> return what they
  returned before.
\<close>

theorem render_leaves_pass_unchanged:
  "fst (render pass gl) = pass
   \<and> get_renderables (fst (render pass gl)) = get_renderables pass
   \<and> get_layers (fst (render pass gl)) = get_layers pass
   \<and> get_target (fst (render pass gl)) = get_target pass"
  by (simp add: render_def Let_def)


section \<open>Offsets in a uniform buffer\<close>

text \<open>
  C1 at the inputs \<open>[vec4 a, float b, vec4 c]\<close> of the standard packed convention:
  \<^verbatim>\<open>add_uniform_buffer\<close> gives \<open>a\<close> the offset 0 and \<open>b\<close> the offset 16, and gives
  \<open>c\<close> the offset 24, where the smallest multiple of 16 from the end of \<open>b\<close> (at 20)
  on is 32. The size of the buffer is what \<^verbatim>\<open>info.get_size()\<close> returns.
\<close>

theorem add_uniform_buffer_example_offsets:
  "\<exists>ub. add_uniform_buffer (std140_fns total_size) example_info = Some ub
     \<and> map_option offset (uniforms ub ''a'') = Some 0
     \<and> map_option offset (uniforms ub ''b'') = Some 16
     \<and> map_option offset (uniforms ub ''c'') = Some 24
     \<and> data_size ub = total_size
     \<and> spec_align (16 + 4) 16 = 32"
  by (simp add: add_uniform_buffer_def example_info_def std140_fns_def emplace_def Let_def
      spec_align_def)

end
